theory Spec2Isabelle
  imports Main "HOL-Library.Word"
begin

section \<open>The JNI bridge to libsynheart\_flux (flux\_jni\_bridge.cpp)\<close>

text \<open>
  The bridge resolves nine symbols of libsynheart\_flux.so once, keeps them in static
  function pointers, and exposes eight JNI entry points that marshal strings and
  handles and call through those pointers. The library itself is not part of the
  bridge: its functions are values of the types the bridge declares for them, acting
  on a state \<open>'w\<close> of the library that the bridge never inspects.
\<close>

subsection \<open>Values crossing the boundary\<close>

type_synonym jlong = "64 word"
type_synonym jint = "32 word"

text \<open>A \<open>void*\<close>: the null pointer is 0.\<close>
type_synonym void_ptr = "64 word"

text \<open>A \<open>jstring\<close> reference or a \<open>char*\<close>: \<open>None\<close> is null.\<close>
type_synonym jstring = "string option"
type_synonym char_ptr = "string option"

text \<open>The typedefs of lines 13-21, as functions on the library's state.\<close>

type_synonym 'w flux_behavior_to_hsi_t = "string \<Rightarrow> 'w \<Rightarrow> char_ptr \<times> 'w"
type_synonym 'w flux_free_string_t = "string \<Rightarrow> 'w \<Rightarrow> 'w"
type_synonym 'w flux_last_error_t = "'w \<Rightarrow> char_ptr \<times> 'w"
type_synonym 'w flux_version_t = "'w \<Rightarrow> char_ptr \<times> 'w"
type_synonym 'w flux_behavior_processor_new_t = "32 word \<Rightarrow> 'w \<Rightarrow> void_ptr \<times> 'w"
type_synonym 'w flux_behavior_processor_free_t = "void_ptr \<Rightarrow> 'w \<Rightarrow> 'w"
type_synonym 'w flux_behavior_processor_process_t =
  "void_ptr \<Rightarrow> string \<Rightarrow> 'w \<Rightarrow> char_ptr \<times> 'w"
type_synonym 'w flux_behavior_processor_save_baselines_t = "void_ptr \<Rightarrow> 'w \<Rightarrow> char_ptr \<times> 'w"
type_synonym 'w flux_behavior_processor_load_baselines_t =
  "void_ptr \<Rightarrow> string \<Rightarrow> 'w \<Rightarrow> 32 word \<times> 'w"

text \<open>Every call the bridge makes into the library, in the order made.\<close>

datatype native_call =
    Call_behavior_to_hsi string
  | Call_free_string string
  | Call_last_error
  | Call_version
  | Call_processor_new "32 word"
  | Call_processor_free void_ptr
  | Call_processor_process void_ptr string
  | Call_processor_save_baselines void_ptr
  | Call_processor_load_baselines void_ptr string

datatype log_entry = LOGI string | LOGE string

subsection \<open>The static state (lines 25-34)\<close>

record 'w bridge_state =
  g_flux_behavior_to_hsi :: "'w flux_behavior_to_hsi_t option"
  g_flux_free_string :: "'w flux_free_string_t option"
  g_flux_last_error :: "'w flux_last_error_t option"
  g_flux_behavior_processor_new :: "'w flux_behavior_processor_new_t option"
  g_flux_behavior_processor_free :: "'w flux_behavior_processor_free_t option"
  g_flux_behavior_processor_process :: "'w flux_behavior_processor_process_t option"
  g_flux_behavior_processor_save_baselines ::
    "'w flux_behavior_processor_save_baselines_t option"
  g_flux_behavior_processor_load_baselines ::
    "'w flux_behavior_processor_load_baselines_t option"
  g_flux_version :: "'w flux_version_t option"
  g_functions_loaded :: bool
  native :: 'w
  calls :: "native_call list"
  logcat :: "log_entry list"

text \<open>The state at program start: every pointer \<open>nullptr\<close>, nothing loaded.\<close>

definition initial_state :: "'w \<Rightarrow> 'w bridge_state" where
  "initial_state w =
     \<lparr> g_flux_behavior_to_hsi = None,
       g_flux_free_string = None,
       g_flux_last_error = None,
       g_flux_behavior_processor_new = None,
       g_flux_behavior_processor_free = None,
       g_flux_behavior_processor_process = None,
       g_flux_behavior_processor_save_baselines = None,
       g_flux_behavior_processor_load_baselines = None,
       g_flux_version = None,
       g_functions_loaded = False,
       native = w,
       calls = [],
       logcat = [] \<rparr>"

subsection \<open>What the dynamic linker and the JVM answer during one call\<close>

text \<open>
  \<open>dlopen\<close> with and without \<open>RTLD_NOLOAD\<close> gives a handle or not; \<open>dlsym\<close>
  resolves each of the nine names or gives null.
\<close>

record 'w dl_env =
  dlopen_noload :: bool
  dlopen_lazy :: bool
  dlerror :: string
  sym_flux_behavior_to_hsi :: "'w flux_behavior_to_hsi_t option"
  sym_flux_free_string :: "'w flux_free_string_t option"
  sym_flux_last_error :: "'w flux_last_error_t option"
  sym_flux_behavior_processor_new :: "'w flux_behavior_processor_new_t option"
  sym_flux_behavior_processor_free :: "'w flux_behavior_processor_free_t option"
  sym_flux_behavior_processor_process :: "'w flux_behavior_processor_process_t option"
  sym_flux_behavior_processor_save_baselines ::
    "'w flux_behavior_processor_save_baselines_t option"
  sym_flux_behavior_processor_load_baselines ::
    "'w flux_behavior_processor_load_baselines_t option"
  sym_flux_version :: "'w flux_version_t option"

text \<open>
  \<open>GetStringUTFChars\<close> and \<open>NewStringUTF\<close> may return null; \<open>malloc n\<close> may fail.
\<close>

record jni_env =
  GetStringUTFChars :: "string \<Rightarrow> char_ptr"
  NewStringUTF :: "string \<Rightarrow> jstring"
  malloc_ok :: "nat \<Rightarrow> bool"

subsection \<open>load\_flux\_functions (lines 37-84)\<close>

definition all_required_loaded :: "'w bridge_state \<Rightarrow> bool" where
  "all_required_loaded st \<longleftrightarrow>
     g_flux_behavior_to_hsi st \<noteq> None \<and> g_flux_free_string st \<noteq> None \<and>
     g_flux_last_error st \<noteq> None \<and>
     g_flux_behavior_processor_new st \<noteq> None \<and>
     g_flux_behavior_processor_free st \<noteq> None \<and>
     g_flux_behavior_processor_process st \<noteq> None \<and>
     g_flux_behavior_processor_save_baselines st \<noteq> None \<and>
     g_flux_behavior_processor_load_baselines st \<noteq> None"

definition assign_symbols :: "'w dl_env \<Rightarrow> 'w bridge_state \<Rightarrow> 'w bridge_state" where
  "assign_symbols dl st =
     st \<lparr> g_flux_behavior_to_hsi := sym_flux_behavior_to_hsi dl,
          g_flux_free_string := sym_flux_free_string dl,
          g_flux_last_error := sym_flux_last_error dl,
          g_flux_behavior_processor_new := sym_flux_behavior_processor_new dl,
          g_flux_behavior_processor_free := sym_flux_behavior_processor_free dl,
          g_flux_behavior_processor_process := sym_flux_behavior_processor_process dl,
          g_flux_behavior_processor_save_baselines :=
            sym_flux_behavior_processor_save_baselines dl,
          g_flux_behavior_processor_load_baselines :=
            sym_flux_behavior_processor_load_baselines dl,
          g_flux_version := sym_flux_version dl \<rparr>"

definition log_line :: "log_entry \<Rightarrow> 'w bridge_state \<Rightarrow> 'w bridge_state" where
  "log_line e st = st \<lparr> logcat := logcat st @ [e] \<rparr>"

text \<open>Lines 77-82: the optional version call, guarded by the pointer itself.\<close>

definition report_version :: "'w bridge_state \<Rightarrow> 'w bridge_state" where
  "report_version st =
     (case g_flux_version st of
        None \<Rightarrow> st
      | Some f \<Rightarrow>
          (case f (native st) of
             (ver, w) \<Rightarrow>
               (let st1 = st \<lparr> native := w, calls := calls st @ [Call_version] \<rparr>
                in case ver of
                     None \<Rightarrow> st1
                   | Some v \<Rightarrow> log_line (LOGI (''synheart-flux version: '' @ v)) st1)))"

definition load_flux_functions :: "'w dl_env \<Rightarrow> 'w bridge_state \<Rightarrow> bool \<times> 'w bridge_state" where
  "load_flux_functions dl st =
     (if g_functions_loaded st then (True, st)
      else if \<not> (dlopen_noload dl \<or> dlopen_lazy dl) then
        (False, log_line (LOGE (''Failed to load libsynheart_flux.so: '' @ dlerror dl)) st)
      else
        (let st1 = assign_symbols dl st
         in if \<not> all_required_loaded st1 then
              (False, log_line (LOGE ''Failed to load some Flux functions'') st1)
            else
              (True,
               report_version
                 (log_line (LOGI ''Successfully loaded all Flux functions'')
                    (st1 \<lparr> g_functions_loaded := True \<rparr>)))))"

subsection \<open>String helpers (lines 87-110)\<close>

text \<open>\<open>strlen\<close> and \<open>strcpy\<close> read up to the first NUL.\<close>

definition c_chars :: "string \<Rightarrow> string" where
  "c_chars s = takeWhile (\<lambda>c. c \<noteq> CHR 0x00) s"

definition strlen :: "string \<Rightarrow> nat" where
  "strlen s = length (c_chars s)"

definition jstring_to_cstring :: "jni_env \<Rightarrow> jstring \<Rightarrow> char_ptr" where
  "jstring_to_cstring env jstr =
     (case jstr of
        None \<Rightarrow> None
      | Some s \<Rightarrow>
          (case GetStringUTFChars env s of
             None \<Rightarrow> None
           | Some utf8 \<Rightarrow>
               (let len = strlen utf8
                in if malloc_ok env (len + 1) then Some (c_chars utf8) else None)))"

definition cstring_to_jstring :: "jni_env \<Rightarrow> char_ptr \<Rightarrow> jstring" where
  "cstring_to_jstring env cstr =
     (case cstr of None \<Rightarrow> None | Some s \<Rightarrow> NewStringUTF env s)"

subsection \<open>Calls through the function pointers\<close>

text \<open>Calling a null function pointer is a fault, not a result.\<close>

datatype fault = NullFunctionPointer

definition record_call :: "native_call \<Rightarrow> 'w \<Rightarrow> 'w bridge_state \<Rightarrow> 'w bridge_state" where
  "record_call c w st = st \<lparr> native := w, calls := calls st @ [c] \<rparr>"

definition call_behavior_to_hsi ::
  "string \<Rightarrow> 'w bridge_state \<Rightarrow> fault + char_ptr \<times> 'w bridge_state" where
  "call_behavior_to_hsi json st =
     (case g_flux_behavior_to_hsi st of
        None \<Rightarrow> Inl NullFunctionPointer
      | Some f \<Rightarrow>
          (case f json (native st) of
             (r, w) \<Rightarrow> Inr (r, record_call (Call_behavior_to_hsi json) w st)))"

definition call_free_string ::
  "string \<Rightarrow> 'w bridge_state \<Rightarrow> fault + 'w bridge_state" where
  "call_free_string s st =
     (case g_flux_free_string st of
        None \<Rightarrow> Inl NullFunctionPointer
      | Some f \<Rightarrow> Inr (record_call (Call_free_string s) (f s (native st)) st))"

definition call_last_error ::
  "'w bridge_state \<Rightarrow> fault + char_ptr \<times> 'w bridge_state" where
  "call_last_error st =
     (case g_flux_last_error st of
        None \<Rightarrow> Inl NullFunctionPointer
      | Some f \<Rightarrow>
          (case f (native st) of (r, w) \<Rightarrow> Inr (r, record_call Call_last_error w st)))"

definition call_version ::
  "'w bridge_state \<Rightarrow> fault + char_ptr \<times> 'w bridge_state" where
  "call_version st =
     (case g_flux_version st of
        None \<Rightarrow> Inl NullFunctionPointer
      | Some f \<Rightarrow>
          (case f (native st) of (r, w) \<Rightarrow> Inr (r, record_call Call_version w st)))"

definition call_processor_new ::
  "32 word \<Rightarrow> 'w bridge_state \<Rightarrow> fault + void_ptr \<times> 'w bridge_state" where
  "call_processor_new n st =
     (case g_flux_behavior_processor_new st of
        None \<Rightarrow> Inl NullFunctionPointer
      | Some f \<Rightarrow>
          (case f n (native st) of
             (p, w) \<Rightarrow> Inr (p, record_call (Call_processor_new n) w st)))"

definition call_processor_free ::
  "void_ptr \<Rightarrow> 'w bridge_state \<Rightarrow> fault + 'w bridge_state" where
  "call_processor_free p st =
     (case g_flux_behavior_processor_free st of
        None \<Rightarrow> Inl NullFunctionPointer
      | Some f \<Rightarrow> Inr (record_call (Call_processor_free p) (f p (native st)) st))"

definition call_processor_process ::
  "void_ptr \<Rightarrow> string \<Rightarrow> 'w bridge_state \<Rightarrow> fault + char_ptr \<times> 'w bridge_state" where
  "call_processor_process p json st =
     (case g_flux_behavior_processor_process st of
        None \<Rightarrow> Inl NullFunctionPointer
      | Some f \<Rightarrow>
          (case f p json (native st) of
             (r, w) \<Rightarrow> Inr (r, record_call (Call_processor_process p json) w st)))"

definition call_processor_save_baselines ::
  "void_ptr \<Rightarrow> 'w bridge_state \<Rightarrow> fault + char_ptr \<times> 'w bridge_state" where
  "call_processor_save_baselines p st =
     (case g_flux_behavior_processor_save_baselines st of
        None \<Rightarrow> Inl NullFunctionPointer
      | Some f \<Rightarrow>
          (case f p (native st) of
             (r, w) \<Rightarrow> Inr (r, record_call (Call_processor_save_baselines p) w st)))"

definition call_processor_load_baselines ::
  "void_ptr \<Rightarrow> string \<Rightarrow> 'w bridge_state \<Rightarrow> fault + 32 word \<times> 'w bridge_state" where
  "call_processor_load_baselines p json st =
     (case g_flux_behavior_processor_load_baselines st of
        None \<Rightarrow> Inl NullFunctionPointer
      | Some f \<Rightarrow>
          (case f p json (native st) of
             (r, w) \<Rightarrow> Inr (r, record_call (Call_processor_load_baselines p json) w st)))"

text \<open>
  The error report shared by the failure paths (lines 133-136, 197-200, 224-227,
  258-261): ask the library for its last error and log it when there is one.
\<close>

definition log_last_error :: "'w bridge_state \<Rightarrow> fault + 'w bridge_state" where
  "log_last_error st =
     (case call_last_error st of
        Inl e \<Rightarrow> Inl e
      | Inr (error, st1) \<Rightarrow>
          Inr (case error of
                 None \<Rightarrow> st1
               | Some msg \<Rightarrow> log_line (LOGE (''Flux error: '' @ msg)) st1))"

text \<open>
  The success path shared by the three string-returning calls (lines 140-142,
  204-206, 231-233): convert the result, release the library's buffer, return.
\<close>

definition return_string ::
  "jni_env \<Rightarrow> string \<Rightarrow> 'w bridge_state \<Rightarrow> fault + jstring \<times> 'w bridge_state" where
  "return_string env result_cstr st =
     (let result = cstring_to_jstring env (Some result_cstr)
      in case call_free_string result_cstr st of
           Inl e \<Rightarrow> Inl e
         | Inr st1 \<Rightarrow> Inr (result, st1))"

subsection \<open>The JNI entry points (lines 113-299)\<close>

definition nativeBehaviorToHsi ::
  "'w dl_env \<Rightarrow> jni_env \<Rightarrow> jstring \<Rightarrow> 'w bridge_state \<Rightarrow> fault + jstring \<times> 'w bridge_state" where
  "nativeBehaviorToHsi dl env json st =
     (case load_flux_functions dl st of
        (False, st1) \<Rightarrow> Inr (None, st1)
      | (True, st1) \<Rightarrow>
          (case jstring_to_cstring env json of
             None \<Rightarrow> Inr (None, st1)
           | Some json_cstr \<Rightarrow>
               (case call_behavior_to_hsi json_cstr st1 of
                  Inl e \<Rightarrow> Inl e
                | Inr (None, st2) \<Rightarrow>
                    (case log_last_error st2 of
                       Inl e \<Rightarrow> Inl e
                     | Inr st3 \<Rightarrow> Inr (None, st3))
                | Inr (Some result_cstr, st2) \<Rightarrow> return_string env result_cstr st2)))"

definition nativeProcessorNew ::
  "'w dl_env \<Rightarrow> jint \<Rightarrow> 'w bridge_state \<Rightarrow> fault + jlong \<times> 'w bridge_state" where
  "nativeProcessorNew dl baselineWindowSessions st =
     (case load_flux_functions dl st of
        (False, st1) \<Rightarrow> Inr (0, st1)
      | (True, st1) \<Rightarrow> call_processor_new baselineWindowSessions st1)"

definition nativeProcessorFree ::
  "'w dl_env \<Rightarrow> jlong \<Rightarrow> 'w bridge_state \<Rightarrow> fault + 'w bridge_state" where
  "nativeProcessorFree dl handle st =
     (case load_flux_functions dl st of
        (loaded, st1) \<Rightarrow>
          if \<not> loaded \<or> handle = 0 then Inr st1
          else call_processor_free handle st1)"

definition nativeProcessorProcess ::
  "'w dl_env \<Rightarrow> jni_env \<Rightarrow> jlong \<Rightarrow> jstring \<Rightarrow> 'w bridge_state \<Rightarrow>
     fault + jstring \<times> 'w bridge_state" where
  "nativeProcessorProcess dl env handle json st =
     (case load_flux_functions dl st of
        (loaded, st1) \<Rightarrow>
          if \<not> loaded \<or> handle = 0 then Inr (None, st1)
          else
            (case jstring_to_cstring env json of
               None \<Rightarrow> Inr (None, st1)
             | Some json_cstr \<Rightarrow>
                 (case call_processor_process handle json_cstr st1 of
                    Inl e \<Rightarrow> Inl e
                  | Inr (None, st2) \<Rightarrow>
                      (case log_last_error st2 of
                         Inl e \<Rightarrow> Inl e
                       | Inr st3 \<Rightarrow> Inr (None, st3))
                  | Inr (Some result_cstr, st2) \<Rightarrow> return_string env result_cstr st2)))"

definition nativeProcessorSaveBaselines ::
  "'w dl_env \<Rightarrow> jni_env \<Rightarrow> jlong \<Rightarrow> 'w bridge_state \<Rightarrow> fault + jstring \<times> 'w bridge_state" where
  "nativeProcessorSaveBaselines dl env handle st =
     (case load_flux_functions dl st of
        (loaded, st1) \<Rightarrow>
          if \<not> loaded \<or> handle = 0 then Inr (None, st1)
          else
            (case call_processor_save_baselines handle st1 of
               Inl e \<Rightarrow> Inl e
             | Inr (None, st2) \<Rightarrow>
                 (case log_last_error st2 of
                    Inl e \<Rightarrow> Inl e
                  | Inr st3 \<Rightarrow> Inr (None, st3))
             | Inr (Some result_cstr, st2) \<Rightarrow> return_string env result_cstr st2))"

definition nativeProcessorLoadBaselines ::
  "'w dl_env \<Rightarrow> jni_env \<Rightarrow> jlong \<Rightarrow> jstring \<Rightarrow> 'w bridge_state \<Rightarrow>
     fault + jint \<times> 'w bridge_state" where
  "nativeProcessorLoadBaselines dl env handle json st =
     (case load_flux_functions dl st of
        (loaded, st1) \<Rightarrow>
          if \<not> loaded \<or> handle = 0 then Inr (- 1, st1)
          else
            (case jstring_to_cstring env json of
               None \<Rightarrow> Inr (- 1, st1)
             | Some json_cstr \<Rightarrow>
                 (case call_processor_load_baselines handle json_cstr st1 of
                    Inl e \<Rightarrow> Inl e
                  | Inr (result, st2) \<Rightarrow>
                      if result \<noteq> 0 then
                        (case log_last_error st2 of
                           Inl e \<Rightarrow> Inl e
                         | Inr st3 \<Rightarrow> Inr (result, st3))
                      else Inr (result, st2))))"

definition nativeFluxVersion ::
  "'w dl_env \<Rightarrow> jni_env \<Rightarrow> 'w bridge_state \<Rightarrow> fault + jstring \<times> 'w bridge_state" where
  "nativeFluxVersion dl env st =
     (case load_flux_functions dl st of
        (loaded, st1) \<Rightarrow>
          if \<not> loaded \<or> g_flux_version st1 = None then Inr (None, st1)
          else
            (case call_version st1 of
               Inl e \<Rightarrow> Inl e
             | Inr (ver, st2) \<Rightarrow> Inr (cstring_to_jstring env ver, st2)))"

definition nativeLastError ::
  "'w dl_env \<Rightarrow> jni_env \<Rightarrow> 'w bridge_state \<Rightarrow> fault + jstring \<times> 'w bridge_state" where
  "nativeLastError dl env st =
     (case load_flux_functions dl st of
        (False, st1) \<Rightarrow> Inr (None, st1)
      | (True, st1) \<Rightarrow>
          (case call_last_error st1 of
             Inl e \<Rightarrow> Inl e
           | Inr (error, st2) \<Rightarrow> Inr (cstring_to_jstring env error, st2)))"

subsection \<open>All entry points as one step function\<close>

datatype jni_call =
    BehaviorToHsi jstring
  | ProcessorNew jint
  | ProcessorFree jlong
  | ProcessorProcess jlong jstring
  | ProcessorSaveBaselines jlong
  | ProcessorLoadBaselines jlong jstring
  | FluxVersion
  | LastError

datatype jni_result = JString jstring | JLong jlong | JInt jint | JVoid

definition returning ::
  "('a \<Rightarrow> jni_result) \<Rightarrow> fault + 'a \<times> 'w bridge_state \<Rightarrow> fault + jni_result \<times> 'w bridge_state" where
  "returning wrap r = (case r of Inl e \<Rightarrow> Inl e | Inr (v, st) \<Rightarrow> Inr (wrap v, st))"

fun jni ::
  "'w dl_env \<Rightarrow> jni_env \<Rightarrow> jni_call \<Rightarrow> 'w bridge_state \<Rightarrow> fault + jni_result \<times> 'w bridge_state" where
  "jni dl env (BehaviorToHsi json) st = returning JString (nativeBehaviorToHsi dl env json st)"
| "jni dl env (ProcessorNew n) st = returning JLong (nativeProcessorNew dl n st)"
| "jni dl env (ProcessorFree h) st =
     (case nativeProcessorFree dl h st of Inl e \<Rightarrow> Inl e | Inr st1 \<Rightarrow> Inr (JVoid, st1))"
| "jni dl env (ProcessorProcess h json) st =
     returning JString (nativeProcessorProcess dl env h json st)"
| "jni dl env (ProcessorSaveBaselines h) st =
     returning JString (nativeProcessorSaveBaselines dl env h st)"
| "jni dl env (ProcessorLoadBaselines h json) st =
     returning JInt (nativeProcessorLoadBaselines dl env h json st)"
| "jni dl env FluxVersion st = returning JString (nativeFluxVersion dl env st)"
| "jni dl env LastError st = returning JString (nativeLastError dl env st)"

text \<open>What each entry point returns when it gives up before calling the library.\<close>

fun failure_sentinel :: "jni_call \<Rightarrow> jni_result" where
  "failure_sentinel (BehaviorToHsi json) = JString None"
| "failure_sentinel (ProcessorNew n) = JLong 0"
| "failure_sentinel (ProcessorFree h) = JVoid"
| "failure_sentinel (ProcessorProcess h json) = JString None"
| "failure_sentinel (ProcessorSaveBaselines h) = JString None"
| "failure_sentinel (ProcessorLoadBaselines h json) = JInt (- 1)"
| "failure_sentinel FluxVersion = JString None"
| "failure_sentinel LastError = JString None"

text \<open>
  The states the process can be in: the initial one, and any state an entry point
  returned, whatever the linker and the JVM answered during the call.
\<close>

inductive reachable :: "'w bridge_state \<Rightarrow> bool" where
  start: "reachable (initial_state w)"
| step: "reachable st \<Longrightarrow> jni dl env c st = Inr (r, st') \<Longrightarrow> reachable st'"

subsection \<open>The invariant of the static state\<close>

text \<open>
  \<open>g_functions_loaded\<close> is set only after the check of lines 67-70 passed, and the
  pointers are never assigned again afterwards.
\<close>

definition bridge_inv :: "'w bridge_state \<Rightarrow> bool" where
  "bridge_inv st \<longleftrightarrow> (g_functions_loaded st \<longrightarrow> all_required_loaded st)"

definition loaded_ok :: "'w bridge_state \<Rightarrow> bool" where
  "loaded_ok st \<longleftrightarrow> g_functions_loaded st \<and> all_required_loaded st"

subsection \<open>Two small environments to run the bridge in\<close>

text \<open>
  A library that resolves all nine symbols and echoes its inputs; its state counts the
  processors handed out. And a linker that finds no library at all.
\<close>

definition echo_library :: "nat dl_env" where
  "echo_library =
     \<lparr> dlopen_noload = True,
       dlopen_lazy = True,
       dlerror = [],
       sym_flux_behavior_to_hsi = Some (\<lambda>json w. (Some json, w)),
       sym_flux_free_string = Some (\<lambda>s w. w),
       sym_flux_last_error = Some (\<lambda>w. (None, w)),
       sym_flux_behavior_processor_new = Some (\<lambda>n w. (of_nat (Suc w), Suc w)),
       sym_flux_behavior_processor_free = Some (\<lambda>p w. w),
       sym_flux_behavior_processor_process = Some (\<lambda>p json w. (Some json, w)),
       sym_flux_behavior_processor_save_baselines = Some (\<lambda>p w. (Some [], w)),
       sym_flux_behavior_processor_load_baselines = Some (\<lambda>p json w. (0, w)),
       sym_flux_version = Some (\<lambda>w. (Some ''0.1.0'', w)) \<rparr>"

definition no_library :: "nat dl_env" where
  "no_library =
     \<lparr> dlopen_noload = False,
       dlopen_lazy = False,
       dlerror = ''library not found'',
       sym_flux_behavior_to_hsi = None,
       sym_flux_free_string = None,
       sym_flux_last_error = None,
       sym_flux_behavior_processor_new = None,
       sym_flux_behavior_processor_free = None,
       sym_flux_behavior_processor_process = None,
       sym_flux_behavior_processor_save_baselines = None,
       sym_flux_behavior_processor_load_baselines = None,
       sym_flux_version = None \<rparr>"

definition plain_jvm :: jni_env where
  "plain_jvm = \<lparr> GetStringUTFChars = Some, NewStringUTF = Some, malloc_ok = (\<lambda>n. True) \<rparr>"

definition failing_jvm :: jni_env where
  "failing_jvm =
     \<lparr> GetStringUTFChars = (\<lambda>s. None), NewStringUTF = Some, malloc_ok = (\<lambda>n. True) \<rparr>"

text \<open>The state after the first call that found the echoing library.\<close>

definition loaded_example :: "nat bridge_state" where
  "loaded_example = snd (load_flux_functions echo_library (initial_state 0))"

section \<open>The baseline window of the behaviour processor\<close>

text \<open>
  The processor that \<open>flux_behavior_processor_process\<close> drives lives in
  libsynheart\_flux.so; the bridge holds only a pointer to it. The definitions of this
  section are therefore written from the specification (sections 3, 4.2 and 7), for an
  Active processor. What the specification leaves to the implementer (the session
  schema, the aggregate metrics, the minimum history, the deviation score and the
  snapshot encoding) is a parameter.
\<close>

text \<open>
  Modelled from the spec: the error kinds of section 7, reported by the library whose
  code is missing.
\<close>

datatype flux_error =
  MalformedInput | InvalidConfiguration | MalformedSnapshot | UseAfterDispose | AllocationFailure

text \<open>
  Modelled from the spec: the implementation choices section 9 leaves open. Parsing a
  session payload fails on a schema violation (\<open>None\<close>); a parsed session has aggregate
  metrics; a baseline with fewer than \<open>min_sessions\<close> sessions gives no comparison;
  otherwise the session's aggregates are compared with the baseline; a baseline is
  serialised into a snapshot payload.
\<close>

record ('s, 'm, 'd) core_model =
  parse_session :: "string \<Rightarrow> 's option"
  aggregate :: "'s \<Rightarrow> 'm"
  min_sessions :: nat
  compare_to_baseline :: "'m list \<Rightarrow> 'm \<Rightarrow> 'd"
  serialize_baseline :: "'m list \<Rightarrow> string"

text \<open>
  Modelled from the spec: section 3, the Baseline as a bounded window of recent
  per-session aggregates (oldest first), owned by a processor with window size W.
\<close>

record 'm processor =
  window :: nat
  baseline :: "'m list"

text \<open>
  Modelled from the spec: section 3, a ProcessingResult says whether the comparison was
  possible and carries the deviation indicators when it was.
\<close>

datatype 'd processing_result = BaselineNotYetEstablished | Deviations 'd

text \<open>
  Modelled from the spec: section 4.2, \<open>New\<close> constructs a processor with an empty
  Baseline and the given window, and fails with InvalidConfiguration if
  \<open>baselineWindow \<le> 0\<close>.
\<close>

definition New :: "int \<Rightarrow> flux_error + 'm processor" where
  "New baselineWindow =
     (if baselineWindow \<le> 0 then Inl InvalidConfiguration
      else Inr \<lparr> window = nat baselineWindow, baseline = [] \<rparr>)"

text \<open>
  Modelled from the spec: section 3, once W sessions are held, incorporating a new
  session evicts the oldest contributing one.
\<close>

definition incorporate :: "nat \<Rightarrow> 'm \<Rightarrow> 'm list \<Rightarrow> 'm list" where
  "incorporate W a b = (if length b < W then b @ [a] else tl b @ [a])"

text \<open>
  Modelled from the spec: section 4.2, \<open>Process\<close> parses the payload and fails with
  MalformedInput on a schema violation, leaving the Baseline unchanged; otherwise it
  computes the aggregates, reports "baseline not yet established" or the comparison
  with the current Baseline, and incorporates the session in either case.
\<close>

definition Process ::
  "('s, 'm, 'd) core_model \<Rightarrow> string \<Rightarrow> 'm processor \<Rightarrow>
     (flux_error + 'd processing_result) \<times> 'm processor" where
  "Process M session p =
     (case parse_session M session of
        None \<Rightarrow> (Inl MalformedInput, p)
      | Some s \<Rightarrow>
          (let a = aggregate M s;
               result = (if length (baseline p) < min_sessions M
                         then BaselineNotYetEstablished
                         else Deviations (compare_to_baseline M (baseline p) a))
           in (Inr result, p \<lparr> baseline := incorporate (window p) a (baseline p) \<rparr>)))"

text \<open>
  Modelled from the spec: section 4.2, \<open>SaveBaselines\<close> serialises the current Baseline
  and does not change the processor.
\<close>

definition SaveBaselines :: "('s, 'm, 'd) core_model \<Rightarrow> 'm processor \<Rightarrow> string" where
  "SaveBaselines M p = serialize_baseline M (baseline p)"

text \<open>A sequence of \<open>Process\<close> calls on one processor, each seeing the state the last left.\<close>

fun process_all ::
  "('s, 'm, 'd) core_model \<Rightarrow> 'm processor \<Rightarrow> string list \<Rightarrow> 'm processor" where
  "process_all M p [] = p"
| "process_all M p (s # ss) = process_all M (snd (Process M s p)) ss"

text \<open>The aggregates of the sessions of a sequence that parse, in order.\<close>

fun aggregates :: "('s, 'm, 'd) core_model \<Rightarrow> string list \<Rightarrow> 'm list" where
  "aggregates M [] = []"
| "aggregates M (s # ss) =
     (case parse_session M s of
        None \<Rightarrow> aggregates M ss
      | Some x \<Rightarrow> aggregate M x # aggregates M ss)"

definition last_sessions :: "nat \<Rightarrow> 'm list \<Rightarrow> 'm list" where
  "last_sessions W xs = drop (length xs - W) xs"

text \<open>
  A small instance to run the definitions on: a payload is malformed when empty, its
  aggregate is the code of its first character, and a comparison needs three sessions.
\<close>

definition char_code_model :: "(nat, nat, int) core_model" where
  "char_code_model =
     \<lparr> parse_session = (\<lambda>s. case s of [] \<Rightarrow> None | c # cs \<Rightarrow> Some (of_char c)),
       aggregate = (\<lambda>x. x),
       min_sessions = 3,
       compare_to_baseline = (\<lambda>b a. int a - int (sum_list b div length b)),
       serialize_baseline = map char_of \<rparr>"

section \<open>Properties of the bridge\<close>

subsection \<open>The pointers stay loaded\<close>

lemma record_call_globals [simp]:
  "all_required_loaded (record_call c w st) = all_required_loaded st"
  "g_functions_loaded (record_call c w st) = g_functions_loaded st"
  "g_flux_version (record_call c w st) = g_flux_version st"
  by (simp_all add: record_call_def all_required_loaded_def)

lemma log_line_globals [simp]:
  "all_required_loaded (log_line e st) = all_required_loaded st"
  "g_functions_loaded (log_line e st) = g_functions_loaded st"
  "g_flux_version (log_line e st) = g_flux_version st"
  "native (log_line e st) = native st"
  "calls (log_line e st) = calls st"
  by (simp_all add: log_line_def all_required_loaded_def)


lemma report_version_globals [simp]:
  "all_required_loaded (report_version st) = all_required_loaded st"
  "g_functions_loaded (report_version st) = g_functions_loaded st"
  "g_flux_version (report_version st) = g_flux_version st"
proof -
  show "all_required_loaded (report_version st) = all_required_loaded st"
    by (cases "g_flux_version st")
       (simp_all add: report_version_def all_required_loaded_def Let_def log_line_def
          split: prod.split option.split)
  show "g_functions_loaded (report_version st) = g_functions_loaded st"
    by (cases "g_flux_version st")
       (simp_all add: report_version_def Let_def log_line_def split: prod.split option.split)
  show "g_flux_version (report_version st) = g_flux_version st"
    by (cases "g_flux_version st")
       (simp_all add: report_version_def Let_def log_line_def split: prod.split option.split)
qed

lemma assign_symbols_loaded [simp]:
  "g_functions_loaded (assign_symbols dl st) = g_functions_loaded st"
  "native (assign_symbols dl st) = native st"
  "calls (assign_symbols dl st) = calls st"
  by (simp_all add: assign_symbols_def)

lemma all_required_loaded_flag [simp]:
  "all_required_loaded (st \<lparr> g_functions_loaded := b \<rparr>) = all_required_loaded st"
  by (simp add: all_required_loaded_def)



lemma load_flux_functions_cases:
  obtains (already) "g_functions_loaded st" "load_flux_functions dl st = (True, st)"
  | (no_handle) "\<not> g_functions_loaded st"
      "load_flux_functions dl st =
         (False, log_line (LOGE (''Failed to load libsynheart_flux.so: '' @ dlerror dl)) st)"
  | (missing) "\<not> g_functions_loaded st" "\<not> all_required_loaded (assign_symbols dl st)"
      "load_flux_functions dl st =
         (False, log_line (LOGE ''Failed to load some Flux functions'') (assign_symbols dl st))"
  | (loaded) "\<not> g_functions_loaded st" "all_required_loaded (assign_symbols dl st)"
      "load_flux_functions dl st =
         (True, report_version
                  (log_line (LOGI ''Successfully loaded all Flux functions'')
                     ((assign_symbols dl st) \<lparr> g_functions_loaded := True \<rparr>)))"
proof (cases "g_functions_loaded st")
  case True
  then show ?thesis using already by (simp add: load_flux_functions_def)
next
  case nl: False
  show ?thesis
  proof (cases "dlopen_noload dl \<or> dlopen_lazy dl")
    case False
    with nl show ?thesis using no_handle by (simp add: load_flux_functions_def)
  next
    case h: True
    show ?thesis
    proof (cases "all_required_loaded (assign_symbols dl st)")
      case True
      with nl h show ?thesis using loaded by (simp add: load_flux_functions_def Let_def)
    next
      case False
      with nl h show ?thesis using missing by (simp add: load_flux_functions_def Let_def)
    qed
  qed
qed

lemma load_flux_functions_True:
  assumes "bridge_inv st" and "load_flux_functions dl st = (True, st1)"
  shows "all_required_loaded st1 \<and> g_functions_loaded st1"
proof (cases rule: load_flux_functions_cases [where st = st and dl = dl])
  case already
  with assms show ?thesis by (simp add: bridge_inv_def)
next
  case no_handle
  with assms show ?thesis by simp
next
  case missing
  with assms show ?thesis by simp
next
  case loaded
  with assms have "st1 = report_version
                  (log_line (LOGI ''Successfully loaded all Flux functions'')
                     ((assign_symbols dl st) \<lparr> g_functions_loaded := True \<rparr>))" by simp
  with loaded(2) show ?thesis by simp
qed

lemma load_flux_functions_False:
  assumes "load_flux_functions dl st = (False, st1)"
  shows "\<not> g_functions_loaded st1 \<and> native st1 = native st \<and> calls st1 = calls st"
proof (cases rule: load_flux_functions_cases [where st = st and dl = dl])
  case already
  with assms show ?thesis by simp
next
  case no_handle
  with assms show ?thesis by auto
next
  case missing
  with assms show ?thesis by auto
next
  case loaded
  with assms show ?thesis by simp
qed



lemma loaded_ok_record_call [simp]: "loaded_ok (record_call c w st) = loaded_ok st"
  by (simp add: loaded_ok_def)

lemma loaded_ok_log_line [simp]: "loaded_ok (log_line e st) = loaded_ok st"
  by (simp add: loaded_ok_def)

lemma loaded_ok_inv: "loaded_ok st \<Longrightarrow> bridge_inv st"
  by (simp add: loaded_ok_def bridge_inv_def)

lemma call_behavior_to_hsi_ok:
  assumes "loaded_ok st"
  shows "\<exists>r st'. call_behavior_to_hsi json st = Inr (r, st') \<and> loaded_ok st'"
proof -
  from assms obtain f where "g_flux_behavior_to_hsi st = Some f"
    by (auto simp: loaded_ok_def all_required_loaded_def)
  with assms show ?thesis
    by (simp add: call_behavior_to_hsi_def split: prod.split)
qed

lemma call_free_string_ok:
  assumes "loaded_ok st"
  shows "\<exists>st'. call_free_string s st = Inr st' \<and> loaded_ok st'"
proof -
  from assms obtain f where "g_flux_free_string st = Some f"
    by (auto simp: loaded_ok_def all_required_loaded_def)
  with assms show ?thesis
    by (simp add: call_free_string_def)
qed

lemma call_last_error_ok:
  assumes "loaded_ok st"
  shows "\<exists>r st'. call_last_error st = Inr (r, st') \<and> loaded_ok st'"
proof -
  from assms obtain f where "g_flux_last_error st = Some f"
    by (auto simp: loaded_ok_def all_required_loaded_def)
  with assms show ?thesis
    by (simp add: call_last_error_def split: prod.split)
qed

lemma call_processor_new_ok:
  assumes "loaded_ok st"
  shows "\<exists>r st'. call_processor_new n st = Inr (r, st') \<and> loaded_ok st'"
proof -
  from assms obtain f where "g_flux_behavior_processor_new st = Some f"
    by (auto simp: loaded_ok_def all_required_loaded_def)
  with assms show ?thesis
    by (simp add: call_processor_new_def split: prod.split)
qed

lemma call_processor_free_ok:
  assumes "loaded_ok st"
  shows "\<exists>st'. call_processor_free p st = Inr st' \<and> loaded_ok st'"
proof -
  from assms obtain f where "g_flux_behavior_processor_free st = Some f"
    by (auto simp: loaded_ok_def all_required_loaded_def)
  with assms show ?thesis
    by (simp add: call_processor_free_def)
qed

lemma call_processor_process_ok:
  assumes "loaded_ok st"
  shows "\<exists>r st'. call_processor_process p json st = Inr (r, st') \<and> loaded_ok st'"
proof -
  from assms obtain f where "g_flux_behavior_processor_process st = Some f"
    by (auto simp: loaded_ok_def all_required_loaded_def)
  with assms show ?thesis
    by (simp add: call_processor_process_def split: prod.split)
qed

lemma call_processor_save_baselines_ok:
  assumes "loaded_ok st"
  shows "\<exists>r st'. call_processor_save_baselines p st = Inr (r, st') \<and> loaded_ok st'"
proof -
  from assms obtain f where "g_flux_behavior_processor_save_baselines st = Some f"
    by (auto simp: loaded_ok_def all_required_loaded_def)
  with assms show ?thesis
    by (simp add: call_processor_save_baselines_def split: prod.split)
qed

lemma call_processor_load_baselines_ok:
  assumes "loaded_ok st"
  shows "\<exists>r st'. call_processor_load_baselines p json st = Inr (r, st') \<and> loaded_ok st'"
proof -
  from assms obtain f where "g_flux_behavior_processor_load_baselines st = Some f"
    by (auto simp: loaded_ok_def all_required_loaded_def)
  with assms show ?thesis
    by (simp add: call_processor_load_baselines_def split: prod.split)
qed

lemma call_version_ok:
  assumes "loaded_ok st" and "g_flux_version st \<noteq> None"
  shows "\<exists>r st'. call_version st = Inr (r, st') \<and> loaded_ok st'"
proof -
  from assms obtain f where "g_flux_version st = Some f" by auto
  with assms show ?thesis
    by (simp add: call_version_def split: prod.split)
qed

lemma log_last_error_ok:
  assumes "loaded_ok st"
  shows "\<exists>st'. log_last_error st = Inr st' \<and> loaded_ok st'"
proof -
  from call_last_error_ok [OF assms] obtain r st1
    where "call_last_error st = Inr (r, st1)" and "loaded_ok st1" by blast
  then show ?thesis
    by (cases r) (simp_all add: log_last_error_def)
qed

lemma return_string_ok:
  assumes "loaded_ok st"
  shows "\<exists>r st'. return_string env c st = Inr (r, st') \<and> loaded_ok st'"
proof -
  from call_free_string_ok [OF assms] obtain st1
    where "call_free_string c st = Inr st1" and "loaded_ok st1" by blast
  then show ?thesis
    by (simp add: return_string_def)
qed

text \<open>The tail shared by the string-returning entry points.\<close>

lemma string_tail_ok:
  assumes "loaded_ok st"
  shows "\<exists>r st'.
           (case res of
              None \<Rightarrow> (case log_last_error st of Inl e \<Rightarrow> Inl e | Inr st3 \<Rightarrow> Inr (None, st3))
            | Some c \<Rightarrow> return_string env c st) = Inr (r, st') \<and> loaded_ok st'"
proof (cases res)
  case None
  from log_last_error_ok [OF assms] obtain st1
    where "log_last_error st = Inr st1" and "loaded_ok st1" by blast
  with None show ?thesis by simp
next
  case (Some c)
  with return_string_ok [OF assms] show ?thesis by simp
qed


lemma load_flux_functions_inv:
  assumes "bridge_inv st" and "load_flux_functions dl st = (ok, st1)"
  shows "if ok then loaded_ok st1 else bridge_inv st1"
proof (cases ok)
  case True
  with assms load_flux_functions_True [of st dl st1] show ?thesis
    by (simp add: loaded_ok_def)
next
  case False
  with assms load_flux_functions_False [of dl st st1] show ?thesis
    by (simp add: bridge_inv_def)
qed


lemma nativeBehaviorToHsi_ok:
  assumes "bridge_inv st"
  shows "\<exists>r st'. nativeBehaviorToHsi dl env json st = Inr (r, st') \<and> bridge_inv st' \<and>
           (\<not> fst (load_flux_functions dl st) \<longrightarrow>
              r = None \<and> st' = snd (load_flux_functions dl st))"
proof -
  obtain ok st1 where l: "load_flux_functions dl st = (ok, st1)" by (cases "load_flux_functions dl st")
  show ?thesis
  proof (cases ok)
    case False
    with l load_flux_functions_inv [OF assms l] show ?thesis
      by (simp add: nativeBehaviorToHsi_def)
  next
    case True
    with load_flux_functions_inv [OF assms l] have ok1: "loaded_ok st1" by simp
    show ?thesis
    proof (cases "jstring_to_cstring env json")
      case None
      with l True ok1 show ?thesis
        by (simp add: nativeBehaviorToHsi_def loaded_ok_inv)
    next
      case (Some j)
      from call_behavior_to_hsi_ok [OF ok1] obtain res st2
        where c: "call_behavior_to_hsi j st1 = Inr (res, st2)" and ok2: "loaded_ok st2" by blast
      from string_tail_ok [OF ok2, where res = res and env = env] obtain r st'
        where "(case res of
              None \<Rightarrow> (case log_last_error st2 of Inl e \<Rightarrow> Inl e | Inr st3 \<Rightarrow> Inr (None, st3))
            | Some c \<Rightarrow> return_string env c st2) = Inr (r, st')" and "loaded_ok st'" by blast
      with l True Some c show ?thesis
        by (simp add: nativeBehaviorToHsi_def loaded_ok_inv)
    qed
  qed
qed


lemma nativeProcessorNew_ok:
  assumes "bridge_inv st"
  shows "\<exists>r st'. nativeProcessorNew dl n st = Inr (r, st') \<and> bridge_inv st' \<and>
           (\<not> fst (load_flux_functions dl st) \<longrightarrow>
              r = 0 \<and> st' = snd (load_flux_functions dl st))"
proof -
  obtain ok st1 where l: "load_flux_functions dl st = (ok, st1)" by (cases "load_flux_functions dl st")
  show ?thesis
  proof (cases ok)
    case False
    with l load_flux_functions_inv [OF assms l] show ?thesis
      by (simp add: nativeProcessorNew_def)
  next
    case True
    with load_flux_functions_inv [OF assms l] have ok1: "loaded_ok st1" by simp
    from call_processor_new_ok [OF ok1] obtain r st'
      where "call_processor_new n st1 = Inr (r, st')" and "loaded_ok st'" by blast
    with l True show ?thesis
      by (simp add: nativeProcessorNew_def loaded_ok_inv)
  qed
qed

lemma nativeProcessorFree_ok:
  assumes "bridge_inv st"
  shows "\<exists>st'. nativeProcessorFree dl h st = Inr st' \<and> bridge_inv st' \<and>
           (\<not> fst (load_flux_functions dl st) \<longrightarrow> st' = snd (load_flux_functions dl st))"
proof -
  obtain ok st1 where l: "load_flux_functions dl st = (ok, st1)" by (cases "load_flux_functions dl st")
  show ?thesis
  proof (cases "\<not> ok \<or> h = 0")
    case True
    with l load_flux_functions_inv [OF assms l] show ?thesis
      by (cases ok) (simp_all add: nativeProcessorFree_def loaded_ok_inv)
  next
    case False
    with load_flux_functions_inv [OF assms l] have ok1: "loaded_ok st1" by simp
    from call_processor_free_ok [OF ok1] obtain st'
      where "call_processor_free h st1 = Inr st'" and "loaded_ok st'" by blast
    with l False show ?thesis
      by (simp add: nativeProcessorFree_def loaded_ok_inv)
  qed
qed

lemma nativeProcessorProcess_ok:
  assumes "bridge_inv st"
  shows "\<exists>r st'. nativeProcessorProcess dl env h json st = Inr (r, st') \<and> bridge_inv st' \<and>
           (\<not> fst (load_flux_functions dl st) \<longrightarrow>
              r = None \<and> st' = snd (load_flux_functions dl st))"
proof -
  obtain ok st1 where l: "load_flux_functions dl st = (ok, st1)" by (cases "load_flux_functions dl st")
  show ?thesis
  proof (cases "\<not> ok \<or> h = 0")
    case True
    with l load_flux_functions_inv [OF assms l] show ?thesis
      by (cases ok) (simp_all add: nativeProcessorProcess_def loaded_ok_inv)
  next
    case False
    with load_flux_functions_inv [OF assms l] have ok1: "loaded_ok st1" by simp
    show ?thesis
    proof (cases "jstring_to_cstring env json")
      case None
      with l False ok1 show ?thesis
        by (simp add: nativeProcessorProcess_def loaded_ok_inv)
    next
      case (Some j)
      from call_processor_process_ok [OF ok1] obtain res st2
        where c: "call_processor_process h j st1 = Inr (res, st2)" and ok2: "loaded_ok st2"
        by blast
      from string_tail_ok [OF ok2, where res = res and env = env] obtain r st'
        where "(case res of
              None \<Rightarrow> (case log_last_error st2 of Inl e \<Rightarrow> Inl e | Inr st3 \<Rightarrow> Inr (None, st3))
            | Some c \<Rightarrow> return_string env c st2) = Inr (r, st')" and "loaded_ok st'" by blast
      with l False Some c show ?thesis
        by (simp add: nativeProcessorProcess_def loaded_ok_inv)
    qed
  qed
qed

lemma nativeProcessorSaveBaselines_ok:
  assumes "bridge_inv st"
  shows "\<exists>r st'. nativeProcessorSaveBaselines dl env h st = Inr (r, st') \<and> bridge_inv st' \<and>
           (\<not> fst (load_flux_functions dl st) \<longrightarrow>
              r = None \<and> st' = snd (load_flux_functions dl st))"
proof -
  obtain ok st1 where l: "load_flux_functions dl st = (ok, st1)" by (cases "load_flux_functions dl st")
  show ?thesis
  proof (cases "\<not> ok \<or> h = 0")
    case True
    with l load_flux_functions_inv [OF assms l] show ?thesis
      by (cases ok) (simp_all add: nativeProcessorSaveBaselines_def loaded_ok_inv)
  next
    case False
    with load_flux_functions_inv [OF assms l] have ok1: "loaded_ok st1" by simp
    from call_processor_save_baselines_ok [OF ok1] obtain res st2
      where c: "call_processor_save_baselines h st1 = Inr (res, st2)" and ok2: "loaded_ok st2"
      by blast
    from string_tail_ok [OF ok2, where res = res and env = env] obtain r st'
      where "(case res of
            None \<Rightarrow> (case log_last_error st2 of Inl e \<Rightarrow> Inl e | Inr st3 \<Rightarrow> Inr (None, st3))
          | Some c \<Rightarrow> return_string env c st2) = Inr (r, st')" and "loaded_ok st'" by blast
    with l False c show ?thesis
      by (simp add: nativeProcessorSaveBaselines_def loaded_ok_inv)
  qed
qed

lemma nativeProcessorLoadBaselines_ok:
  assumes "bridge_inv st"
  shows "\<exists>r st'. nativeProcessorLoadBaselines dl env h json st = Inr (r, st') \<and> bridge_inv st' \<and>
           (\<not> fst (load_flux_functions dl st) \<longrightarrow>
              r = - 1 \<and> st' = snd (load_flux_functions dl st))"
proof -
  obtain ok st1 where l: "load_flux_functions dl st = (ok, st1)" by (cases "load_flux_functions dl st")
  show ?thesis
  proof (cases "\<not> ok \<or> h = 0")
    case True
    with l load_flux_functions_inv [OF assms l] show ?thesis
      by (cases ok) (simp_all add: nativeProcessorLoadBaselines_def loaded_ok_inv)
  next
    case False
    with load_flux_functions_inv [OF assms l] have ok1: "loaded_ok st1" by simp
    show ?thesis
    proof (cases "jstring_to_cstring env json")
      case None
      with l False ok1 show ?thesis
        by (simp add: nativeProcessorLoadBaselines_def loaded_ok_inv)
    next
      case (Some j)
      from call_processor_load_baselines_ok [OF ok1] obtain res st2
        where c: "call_processor_load_baselines h j st1 = Inr (res, st2)"
          and ok2: "loaded_ok st2"
        by blast
      show ?thesis
      proof (cases "res = 0")
        case True
        with l False Some c ok2 show ?thesis
          by (simp add: nativeProcessorLoadBaselines_def loaded_ok_inv)
      next
        case nz: False
        from log_last_error_ok [OF ok2] obtain st3
          where "log_last_error st2 = Inr st3" and "loaded_ok st3" by blast
        with l False Some c nz show ?thesis
          by (simp add: nativeProcessorLoadBaselines_def loaded_ok_inv)
      qed
    qed
  qed
qed


lemma nativeFluxVersion_ok:
  assumes "bridge_inv st"
  shows "\<exists>r st'. nativeFluxVersion dl env st = Inr (r, st') \<and> bridge_inv st' \<and>
           (\<not> fst (load_flux_functions dl st) \<longrightarrow>
              r = None \<and> st' = snd (load_flux_functions dl st))"
proof -
  obtain ok st1 where l: "load_flux_functions dl st = (ok, st1)" by (cases "load_flux_functions dl st")
  show ?thesis
  proof (cases "\<not> ok \<or> g_flux_version st1 = None")
    case True
    with l load_flux_functions_inv [OF assms l] show ?thesis
      by (cases ok) (simp_all add: nativeFluxVersion_def loaded_ok_inv)
  next
    case False
    with load_flux_functions_inv [OF assms l] have ok1: "loaded_ok st1" by simp
    from False have "g_flux_version st1 \<noteq> None" by simp
    from call_version_ok [OF ok1 this] obtain r st'
      where "call_version st1 = Inr (r, st')" and "loaded_ok st'" by blast
    with l False show ?thesis
      by (auto simp add: nativeFluxVersion_def loaded_ok_inv)
  qed
qed

lemma nativeLastError_ok:
  assumes "bridge_inv st"
  shows "\<exists>r st'. nativeLastError dl env st = Inr (r, st') \<and> bridge_inv st' \<and>
           (\<not> fst (load_flux_functions dl st) \<longrightarrow>
              r = None \<and> st' = snd (load_flux_functions dl st))"
proof -
  obtain ok st1 where l: "load_flux_functions dl st = (ok, st1)" by (cases "load_flux_functions dl st")
  show ?thesis
  proof (cases ok)
    case False
    with l load_flux_functions_inv [OF assms l] show ?thesis
      by (simp add: nativeLastError_def)
  next
    case True
    with load_flux_functions_inv [OF assms l] have ok1: "loaded_ok st1" by simp
    from call_last_error_ok [OF ok1] obtain r st'
      where "call_last_error st1 = Inr (r, st')" and "loaded_ok st'" by blast
    with l True show ?thesis
      by (simp add: nativeLastError_def loaded_ok_inv)
  qed
qed

lemma jni_ok:
  assumes "bridge_inv st"
  shows "\<exists>r st'. jni dl env c st = Inr (r, st') \<and> bridge_inv st' \<and>
           (\<not> fst (load_flux_functions dl st) \<longrightarrow>
              r = failure_sentinel c \<and> st' = snd (load_flux_functions dl st))"
proof (cases c)
  case (BehaviorToHsi json)
  from nativeBehaviorToHsi_ok [OF assms, of dl env json] obtain r st'
    where "nativeBehaviorToHsi dl env json st = Inr (r, st')" "bridge_inv st'"
      "\<not> fst (load_flux_functions dl st) \<longrightarrow> r = None \<and> st' = snd (load_flux_functions dl st)"
    by blast
  with BehaviorToHsi show ?thesis by (simp add: returning_def)
next
  case (ProcessorNew n)
  from nativeProcessorNew_ok [OF assms, of dl n] obtain r st'
    where "nativeProcessorNew dl n st = Inr (r, st')" "bridge_inv st'"
      "\<not> fst (load_flux_functions dl st) \<longrightarrow> r = 0 \<and> st' = snd (load_flux_functions dl st)"
    by blast
  with ProcessorNew show ?thesis by (simp add: returning_def)
next
  case (ProcessorFree h)
  from nativeProcessorFree_ok [OF assms, of dl h] obtain st'
    where "nativeProcessorFree dl h st = Inr st'" "bridge_inv st'"
      "\<not> fst (load_flux_functions dl st) \<longrightarrow> st' = snd (load_flux_functions dl st)"
    by blast
  with ProcessorFree show ?thesis by simp
next
  case (ProcessorProcess h json)
  from nativeProcessorProcess_ok [OF assms, of dl env h json] obtain r st'
    where "nativeProcessorProcess dl env h json st = Inr (r, st')" "bridge_inv st'"
      "\<not> fst (load_flux_functions dl st) \<longrightarrow> r = None \<and> st' = snd (load_flux_functions dl st)"
    by blast
  with ProcessorProcess show ?thesis by (simp add: returning_def)
next
  case (ProcessorSaveBaselines h)
  from nativeProcessorSaveBaselines_ok [OF assms, of dl env h] obtain r st'
    where "nativeProcessorSaveBaselines dl env h st = Inr (r, st')" "bridge_inv st'"
      "\<not> fst (load_flux_functions dl st) \<longrightarrow> r = None \<and> st' = snd (load_flux_functions dl st)"
    by blast
  with ProcessorSaveBaselines show ?thesis by (simp add: returning_def)
next
  case (ProcessorLoadBaselines h json)
  from nativeProcessorLoadBaselines_ok [OF assms, of dl env h json] obtain r st'
    where "nativeProcessorLoadBaselines dl env h json st = Inr (r, st')" "bridge_inv st'"
      "\<not> fst (load_flux_functions dl st) \<longrightarrow> r = - 1 \<and> st' = snd (load_flux_functions dl st)"
    by blast
  with ProcessorLoadBaselines show ?thesis by (simp add: returning_def)
next
  case FluxVersion
  from nativeFluxVersion_ok [OF assms, of dl env] obtain r st'
    where "nativeFluxVersion dl env st = Inr (r, st')" "bridge_inv st'"
      "\<not> fst (load_flux_functions dl st) \<longrightarrow> r = None \<and> st' = snd (load_flux_functions dl st)"
    by blast
  with FluxVersion show ?thesis by (simp add: returning_def)
next
  case LastError
  from nativeLastError_ok [OF assms, of dl env] obtain r st'
    where "nativeLastError dl env st = Inr (r, st')" "bridge_inv st'"
      "\<not> fst (load_flux_functions dl st) \<longrightarrow> r = None \<and> st' = snd (load_flux_functions dl st)"
    by blast
  with LastError show ?thesis by (simp add: returning_def)
qed

lemma reachable_inv: "reachable st \<Longrightarrow> bridge_inv st"
proof (induction rule: reachable.induct)
  case (start w)
  show ?case by (simp add: bridge_inv_def initial_state_def)
next
  case (step st dl env c r st')
  from jni_ok [OF step.IH, of dl env c] step.hyps(2) show ?case by auto
qed

subsection \<open>What a load adds to the call trace\<close>

lemma report_version_calls:
  "calls (report_version st) = calls st \<or> calls (report_version st) = calls st @ [Call_version]"
  by (cases "g_flux_version st")
     (simp_all add: report_version_def Let_def log_line_def split: prod.split option.split)

lemma load_flux_functions_calls:
  "calls (snd (load_flux_functions dl st)) = calls st \<or>
   calls (snd (load_flux_functions dl st)) = calls st @ [Call_version]"
proof (cases rule: load_flux_functions_cases [where st = st and dl = dl])
  case already
  then show ?thesis by simp
next
  case no_handle
  then show ?thesis by simp
next
  case missing
  then show ?thesis by simp
next
  case loaded
  let ?s = "log_line (LOGI ''Successfully loaded all Flux functions'')
              ((assign_symbols dl st) \<lparr> g_functions_loaded := True \<rparr>)"
  have "calls ?s = calls st" by simp
  with report_version_calls [of ?s] loaded(3) show ?thesis by simp
qed

lemma load_flux_functions_once:
  "g_functions_loaded st \<Longrightarrow> load_flux_functions dl st = (True, st)"
  by (simp add: load_flux_functions_def)

text \<open>
  Claim C9. In every state the process can reach, \<open>g_functions_loaded\<close> is set only if
  all eight required pointers are non-null. Every JNI entry point then returns a result
  instead of calling through a null pointer: when \<open>load_flux_functions\<close> returns false
  it returns its failure value (null, handle 0, -1; nothing for the \<open>void\<close> entry point)
  without any call into the library, and when it returns true all eight pointers are
  loaded.
\<close>

theorem loaded_pointers_never_null:
  assumes "reachable st"
  shows "(g_functions_loaded st \<longrightarrow> all_required_loaded st) \<and>
         (\<forall>dl env c. \<exists>r st'. jni dl env c st = Inr (r, st') \<and>
            (if fst (load_flux_functions dl st)
             then all_required_loaded (snd (load_flux_functions dl st))
             else r = failure_sentinel c \<and> native st' = native st \<and> calls st' = calls st))"
proof -
  from assms have inv: "bridge_inv st" by (rule reachable_inv)
  have "\<exists>r st'. jni dl env c st = Inr (r, st') \<and>
            (if fst (load_flux_functions dl st)
             then all_required_loaded (snd (load_flux_functions dl st))
             else r = failure_sentinel c \<and> native st' = native st \<and> calls st' = calls st)"
    for dl env c
  proof -
    obtain ok st1 where l: "load_flux_functions dl st = (ok, st1)"
      by (cases "load_flux_functions dl st")
    from jni_ok [OF inv, of dl env c] obtain r st'
      where j: "jni dl env c st = Inr (r, st')"
        and s: "\<not> fst (load_flux_functions dl st) \<longrightarrow>
                  r = failure_sentinel c \<and> st' = snd (load_flux_functions dl st)"
      by blast
    show ?thesis
    proof (cases ok)
      case True
      with load_flux_functions_True [OF inv, of dl st1] l j show ?thesis by simp
    next
      case False
      with load_flux_functions_False [of dl st st1] l j s show ?thesis by simp
    qed
  qed
  with inv show ?thesis by (simp add: bridge_inv_def)
qed

lemma loaded_example_loaded: "g_functions_loaded loaded_example"
  by (simp add: loaded_example_def load_flux_functions_def echo_library_def initial_state_def
      assign_symbols_def all_required_loaded_def Let_def log_line_def)

lemma loaded_example_reachable: "reachable loaded_example"
proof -
  have "jni echo_library plain_jvm (ProcessorFree 0) (initial_state 0) = Inr (JVoid, loaded_example)"
    by (simp add: nativeProcessorFree_def loaded_example_def split: prod.split)
  with reachable.start [of 0] show ?thesis by (rule reachable.step)
qed

lemma no_library_fails: "\<not> fst (load_flux_functions no_library (initial_state 0))"
  by (simp add: load_flux_functions_def no_library_def initial_state_def)

text \<open>
  The state after a first call that found the echoing library is reachable and loaded,
  and every entry point returns from it. Without a library, the first call returns its
  failure value and makes no library call.
\<close>

theorem loaded_pointers_never_null_witness:
  "reachable loaded_example \<and> g_functions_loaded loaded_example \<and>
   all_required_loaded loaded_example \<and>
   (\<forall>dl env c. \<exists>r st'. jni dl env c loaded_example = Inr (r, st') \<and>
      all_required_loaded (snd (load_flux_functions dl loaded_example))) \<and>
   (\<exists>st'. jni no_library plain_jvm (ProcessorLoadBaselines 7 (Some ''{}'')) (initial_state 0) =
            Inr (JInt (- 1), st') \<and> calls st' = [])"
proof -
  have a: "reachable loaded_example \<and> g_functions_loaded loaded_example \<and>
   all_required_loaded loaded_example \<and>
   (\<forall>dl env c. \<exists>r st'. jni dl env c loaded_example = Inr (r, st') \<and>
      all_required_loaded (snd (load_flux_functions dl loaded_example)))"
    using loaded_pointers_never_null [OF loaded_example_reachable] loaded_example_loaded
      loaded_example_reachable
    by (simp add: load_flux_functions_once)
  have "calls (initial_state (0::nat)) = []" by (simp add: initial_state_def)
  with loaded_pointers_never_null [OF reachable.start [of 0]] no_library_fails
  have "\<exists>st'. jni no_library plain_jvm (ProcessorLoadBaselines 7 (Some ''{}'')) (initial_state 0) =
            Inr (JInt (- 1), st') \<and> calls st' = []"
    by (metis failure_sentinel.simps(6))
  with a show ?thesis by blast
qed

lemma jstring_to_cstring_null:
  assumes "json = None \<or> (\<exists>s. json = Some s \<and> GetStringUTFChars env s = None)"
  shows "jstring_to_cstring env json = None"
  using assms by (auto simp: jstring_to_cstring_def)

text \<open>
  Claim C10. With a null JSON string, or one whose \<open>GetStringUTFChars\<close> fails,
  \<open>nativeBehaviorToHsi\<close> and \<open>nativeProcessorProcess\<close> return null and
  \<open>nativeProcessorLoadBaselines\<close> returns -1, in the state \<open>load_flux_functions\<close> alone
  leaves: the only library call that can have been added is the version query of a first
  load, and once the functions are loaded the state is untouched.
\<close>

theorem null_json_stops_before_library:
  assumes "json = None \<or> (\<exists>s. json = Some s \<and> GetStringUTFChars env s = None)"
  shows "nativeBehaviorToHsi dl env json st = Inr (None, snd (load_flux_functions dl st)) \<and>
         nativeProcessorProcess dl env h json st = Inr (None, snd (load_flux_functions dl st)) \<and>
         nativeProcessorLoadBaselines dl env h json st =
           Inr (- 1, snd (load_flux_functions dl st)) \<and>
         (calls (snd (load_flux_functions dl st)) = calls st \<or>
          calls (snd (load_flux_functions dl st)) = calls st @ [Call_version]) \<and>
         (g_functions_loaded st \<longrightarrow> snd (load_flux_functions dl st) = st)"
proof -
  from assms have n: "jstring_to_cstring env json = None" by (rule jstring_to_cstring_null)
  obtain ok st1 where l: "load_flux_functions dl st = (ok, st1)"
    by (cases "load_flux_functions dl st")
  have a: "nativeBehaviorToHsi dl env json st = Inr (None, snd (load_flux_functions dl st))"
    using n l by (cases ok) (simp_all add: nativeBehaviorToHsi_def)
  have b: "nativeProcessorProcess dl env h json st = Inr (None, snd (load_flux_functions dl st))"
    using n l by (simp add: nativeProcessorProcess_def)
  have c: "nativeProcessorLoadBaselines dl env h json st =
             Inr (- 1, snd (load_flux_functions dl st))"
    using n l by (simp add: nativeProcessorLoadBaselines_def)
  have d: "g_functions_loaded st \<longrightarrow> snd (load_flux_functions dl st) = st"
    by (simp add: load_flux_functions_once)
  from a b c d load_flux_functions_calls [of dl st] show ?thesis by blast
qed

lemma loaded_example_once: "load_flux_functions dl loaded_example = (True, loaded_example)"
  using loaded_example_loaded by (rule load_flux_functions_once)

text \<open>A failing conversion on a loaded bridge: the three results, the state unchanged.\<close>

theorem null_json_stops_before_library_witness:
  "nativeBehaviorToHsi echo_library failing_jvm (Some ''{}'') loaded_example =
     Inr (None, loaded_example) \<and>
   nativeProcessorProcess echo_library failing_jvm 5 (Some ''{}'') loaded_example =
     Inr (None, loaded_example) \<and>
   nativeProcessorLoadBaselines echo_library failing_jvm 5 (Some ''{}'') loaded_example =
     Inr (- 1, loaded_example)"
proof -
  have "GetStringUTFChars failing_jvm ''{}'' = None" by (simp add: failing_jvm_def)
  then have "Some ''{}'' = None \<or>
      (\<exists>s. Some ''{}'' = Some s \<and> GetStringUTFChars failing_jvm s = None)" by simp
  from null_json_stops_before_library [OF this, of echo_library loaded_example 5]
  show ?thesis by (simp add: loaded_example_once)
qed

subsection \<open>What the bridge hands to the library unchecked\<close>

text \<open>
  The bridge screens a handle only against 0 and a window not at all: on a loaded
  bridge every other handle, and every window, goes to the library as it came.
\<close>

lemma nativeProcessorFree_null:
  "nativeProcessorFree dl 0 st = Inr (snd (load_flux_functions dl st))"
  by (simp add: nativeProcessorFree_def split: prod.split)

lemma nativeProcessorFree_forwards:
  "g_functions_loaded st \<Longrightarrow> h \<noteq> 0 \<Longrightarrow>
     nativeProcessorFree dl h st = call_processor_free h st"
  by (simp add: nativeProcessorFree_def load_flux_functions_once)

lemma nativeProcessorNew_forwards:
  "g_functions_loaded st \<Longrightarrow> nativeProcessorNew dl n st = call_processor_new n st"
  by (simp add: nativeProcessorNew_def load_flux_functions_once)

lemma nativeProcessorSaveBaselines_forwards:
  "g_functions_loaded st \<Longrightarrow> h \<noteq> 0 \<Longrightarrow>
     nativeProcessorSaveBaselines dl env h st =
       (case call_processor_save_baselines h st of
          Inl e \<Rightarrow> Inl e
        | Inr (None, st2) \<Rightarrow>
            (case log_last_error st2 of Inl e \<Rightarrow> Inl e | Inr st3 \<Rightarrow> Inr (None, st3))
        | Inr (Some result_cstr, st2) \<Rightarrow> return_string env result_cstr st2)"
  by (simp add: nativeProcessorSaveBaselines_def load_flux_functions_once)

text \<open>
  The converter entry point calls the converter, the error query and the string release
  (and the version query of a first load), and no processor function.
\<close>

lemma calls_record_call [simp]: "calls (record_call c w st) = calls st @ [c]"
  by (simp add: record_call_def)

lemma call_behavior_to_hsi_calls:
  "call_behavior_to_hsi j st = Inr (r, st') \<Longrightarrow> calls st' = calls st @ [Call_behavior_to_hsi j]"
  by (cases "g_flux_behavior_to_hsi st")
     (auto simp: call_behavior_to_hsi_def split: prod.splits)

lemma log_last_error_calls:
  "log_last_error st = Inr st' \<Longrightarrow> calls st' = calls st @ [Call_last_error]"
  by (cases "g_flux_last_error st")
     (auto simp: log_last_error_def call_last_error_def split: prod.splits option.splits)

lemma return_string_calls:
  "return_string env c st = Inr (r, st') \<Longrightarrow> calls st' = calls st @ [Call_free_string c]"
  by (cases "g_flux_free_string st")
     (auto simp: return_string_def call_free_string_def Let_def)

lemma nativeBehaviorToHsi_calls:
  assumes "nativeBehaviorToHsi dl env json st = Inr (r, st')"
  shows "set (calls st') \<subseteq>
           set (calls st) \<union> {Call_version, Call_last_error} \<union>
           range Call_behavior_to_hsi \<union> range Call_free_string"
proof -
  obtain ok st1 where l: "load_flux_functions dl st = (ok, st1)"
    by (cases "load_flux_functions dl st")
  from load_flux_functions_calls [of dl st] l
  have c1: "set (calls st1) \<subseteq> set (calls st) \<union> {Call_version}" by auto
  show ?thesis
  proof (cases "ok \<and> jstring_to_cstring env json \<noteq> None")
    case False
    with assms l have "st' = st1"
      by (cases ok) (auto simp: nativeBehaviorToHsi_def)
    with c1 show ?thesis by auto
  next
    case True
    then obtain j where j: "jstring_to_cstring env json = Some j" and ok: ok by auto
    from assms l ok j obtain res st2
      where c: "call_behavior_to_hsi j st1 = Inr (res, st2)"
        and t: "(case res of
                   None \<Rightarrow> (case log_last_error st2 of Inl e \<Rightarrow> Inl e | Inr st3 \<Rightarrow> Inr (None, st3))
                 | Some c \<Rightarrow> return_string env c st2) = Inr (r, st')"
      by (cases "call_behavior_to_hsi j st1") (auto simp: nativeBehaviorToHsi_def)
    from call_behavior_to_hsi_calls [OF c]
    have c2: "calls st2 = calls st1 @ [Call_behavior_to_hsi j]" .
    show ?thesis
    proof (cases res)
      case None
      with t obtain st3 where "log_last_error st2 = Inr st3" and "st' = st3"
        by (cases "log_last_error st2") auto
      with log_last_error_calls [of st2 st3] c1 c2 show ?thesis by auto
    next
      case (Some c)
      with t return_string_calls [of env c st2 r st'] c1 c2 show ?thesis by auto
    qed
  qed
qed

section \<open>Properties of the baseline window\<close>

lemma incorporate_last:
  assumes "0 < W" and "length b \<le> W"
  shows "incorporate W a b = last_sessions W (b @ [a])"
proof (cases "length b < W")
  case True
  then show ?thesis by (simp add: incorporate_def last_sessions_def)
next
  case False
  with assms have "length b = W" by simp
  with assms(1) show ?thesis
    by (cases b) (simp_all add: incorporate_def last_sessions_def)
qed

lemma last_sessions_length: "length (last_sessions W xs) \<le> W"
  by (simp add: last_sessions_def)

lemma last_sessions_snoc:
  assumes "0 < W"
  shows "last_sessions W (last_sessions W xs @ [a]) = last_sessions W (xs @ [a])"
proof (cases "length xs \<le> W")
  case True
  then show ?thesis by (simp add: last_sessions_def)
next
  case False
  then have "W < length xs" by simp
  with assms show ?thesis by (simp add: last_sessions_def Suc_diff_le)
qed

lemma Process_baseline:
  assumes "0 < window p" and "length (baseline p) \<le> window p"
  shows "baseline (snd (Process M s p)) =
           (case parse_session M s of
              None \<Rightarrow> baseline p
            | Some x \<Rightarrow> last_sessions (window p) (baseline p @ [aggregate M x]))"
    and "window (snd (Process M s p)) = window p"
  using assms by (simp_all add: Process_def Let_def incorporate_last split: option.split)

lemma process_all_window:
  "window (process_all M p ss) = window p"
  by (induction ss arbitrary: p) (simp_all add: Process_def Let_def split: option.split)

lemma process_all_baseline:
  assumes "0 < window p" and "baseline p = last_sessions (window p) hist"
  shows "baseline (process_all M p ss) = last_sessions (window p) (hist @ aggregates M ss)"
  using assms
proof (induction ss arbitrary: p hist)
  case Nil
  then show ?case by simp
next
  case (Cons s ss)
  let ?p = "snd (Process M s p)"
  from Cons.prems have len: "length (baseline p) \<le> window p"
    by (simp add: last_sessions_length)
  have w: "window ?p = window p" using Cons.prems(1) len by (rule Process_baseline(2))
  show ?case
  proof (cases "parse_session M s")
    case None
    with Process_baseline(1) [OF Cons.prems(1) len, of M s] Cons.prems
    have "baseline ?p = last_sessions (window ?p) hist" by (simp add: w)
    from Cons.IH [OF _ this] Cons.prems(1) None show ?thesis by (simp add: w)
  next
    case (Some x)
    with Process_baseline(1) [OF Cons.prems(1) len, of M s] Cons.prems
    have "baseline ?p = last_sessions (window ?p) (hist @ [aggregate M x])"
      by (simp add: w last_sessions_snoc)
    from Cons.IH [OF _ this] Cons.prems(1) Some show ?thesis by (simp add: w)
  qed
qed

lemma aggregates_append: "aggregates M (xs @ ys) = aggregates M xs @ aggregates M ys"
  by (induction xs) (simp_all split: option.split)

lemma last_sessions_append:
  "W \<le> length ys \<Longrightarrow> last_sessions W (xs @ ys) = last_sessions W ys"
  by (simp add: last_sessions_def)


lemma New_positive:
  assumes "New W = Inr p0"
  shows "0 < W" and "window p0 = nat W" and "baseline p0 = []"
  using assms by (auto simp: New_def split: if_splits)

text \<open>
  Claim C2. A processor constructed with window W never holds more than W sessions,
  whatever sequence of \<open>Process\<close> calls it has served; its Baseline is the aggregates of
  the most recent W sessions that were processed; and once W sessions \<open>recent\<close> have
  been processed, the sessions before them no longer matter: the Baseline, and with it
  the result of the next \<open>Process\<close> call, is the same whatever came before.
\<close>

theorem baseline_holds_last_window:
  assumes "New W = Inr p0"
  shows "length (baseline (process_all M p0 ss)) \<le> nat W \<and>
         baseline (process_all M p0 ss) = last_sessions (nat W) (aggregates M ss) \<and>
         (nat W \<le> length (aggregates M recent) \<longrightarrow>
            baseline (process_all M p0 (older @ recent)) =
              last_sessions (nat W) (aggregates M recent) \<and>
            Process M next (process_all M p0 (older @ recent)) =
              Process M next (process_all M p0 (older' @ recent)))"
proof -
  from New_positive [OF assms] have w: "0 < window p0" "window p0 = nat W"
    and b: "baseline p0 = last_sessions (window p0) []"
    by (simp_all add: last_sessions_def)
  have all: "baseline (process_all M p0 xs) = last_sessions (nat W) (aggregates M xs)" for xs
    using process_all_baseline [OF w(1) b, of M xs] by (simp add: w(2))
  have len: "length (baseline (process_all M p0 ss)) \<le> nat W"
    by (simp add: all last_sessions_length)
  have indep: "process_all M p0 (older @ recent) = process_all M p0 (older' @ recent)"
    and recent: "baseline (process_all M p0 (older @ recent)) =
                   last_sessions (nat W) (aggregates M recent)"
    if "nat W \<le> length (aggregates M recent)"
  proof -
    from that have r: "baseline (process_all M p0 (xs @ recent)) =
                         last_sessions (nat W) (aggregates M recent)" for xs
      by (simp add: all aggregates_append last_sessions_append)
    show "baseline (process_all M p0 (older @ recent)) =
            last_sessions (nat W) (aggregates M recent)" by (rule r)
    show "process_all M p0 (older @ recent) = process_all M p0 (older' @ recent)"
      by (rule processor.equality) (simp_all add: r process_all_window)
  qed
  from len all indep recent show ?thesis by simp
qed

text \<open>
  Window 3 and the sessions 10, 12, 11, 50 of the specification's scenario: the Baseline
  is then 12, 11, 50, and a session 99 before 10, 12, 11 changes nothing for the next.
\<close>

theorem baseline_holds_last_window_witness:
  "New 3 = Inr \<lparr> window = 3, baseline = ([] :: nat list) \<rparr> \<and>
   baseline (process_all char_code_model \<lparr> window = 3, baseline = [] \<rparr>
               [[CHR 0x0A], [CHR 0x0C], [CHR 0x0B], ''2'']) = [12, 11, 50] \<and>
   Process char_code_model ''2''
     (process_all char_code_model \<lparr> window = 3, baseline = [] \<rparr>
        ([[CHR 0x63]] @ [[CHR 0x0A], [CHR 0x0C], [CHR 0x0B]])) =
   Process char_code_model ''2''
     (process_all char_code_model \<lparr> window = 3, baseline = [] \<rparr>
        ([] @ [[CHR 0x0A], [CHR 0x0C], [CHR 0x0B]]))"
proof -
  have n: "New 3 = Inr \<lparr> window = 3, baseline = ([] :: nat list) \<rparr>"
    by (simp add: New_def)
  have a: "aggregates char_code_model [[CHR 0x0A], [CHR 0x0C], [CHR 0x0B], ''2''] = [10, 12, 11, 50]"
    by (simp add: char_code_model_def)
  have r: "aggregates char_code_model [[CHR 0x0A], [CHR 0x0C], [CHR 0x0B]] = [10, 12, 11]"
    by (simp add: char_code_model_def)
  note t = baseline_holds_last_window [OF n, of char_code_model
      "[[CHR 0x0A], [CHR 0x0C], [CHR 0x0B], ''2'']" "[[CHR 0x0A], [CHR 0x0C], [CHR 0x0B]]"
      "[[CHR 0x63]]" "''2''" "[]"]
  from t have "baseline (process_all char_code_model \<lparr> window = 3, baseline = [] \<rparr>
                 [[CHR 0x0A], [CHR 0x0C], [CHR 0x0B], ''2'']) =
               last_sessions (nat 3) [10, 12, 11, 50]"
    unfolding a by blast
  then have b: "baseline (process_all char_code_model \<lparr> window = 3, baseline = [] \<rparr>
                 [[CHR 0x0A], [CHR 0x0C], [CHR 0x0B], ''2'']) = [12, 11, 50]"
    by (simp add: last_sessions_def)
  have "nat 3 \<le> length (aggregates char_code_model [[CHR 0x0A], [CHR 0x0C], [CHR 0x0B]])"
    unfolding r by simp
  with t have "Process char_code_model ''2''
     (process_all char_code_model \<lparr> window = 3, baseline = [] \<rparr>
        ([[CHR 0x63]] @ [[CHR 0x0A], [CHR 0x0C], [CHR 0x0B]])) =
   Process char_code_model ''2''
     (process_all char_code_model \<lparr> window = 3, baseline = [] \<rparr>
        ([] @ [[CHR 0x0A], [CHR 0x0C], [CHR 0x0B]]))"
    by blast
  with n b show ?thesis by blast
qed

text \<open>
  Claim C3. A payload that violates the schema makes \<open>Process\<close> fail with
  MalformedInput and leaves the processor as it was, so \<open>SaveBaselines\<close> gives the same
  snapshot after the failed call as before it.
\<close>

theorem malformed_session_leaves_baseline:
  assumes "parse_session M session = None"
  shows "Process M session p = (Inl MalformedInput, p) \<and>
         SaveBaselines M (snd (Process M session p)) = SaveBaselines M p"
  using assms by (simp add: Process_def)

text \<open>The empty payload on a processor holding 10 and 12.\<close>

theorem malformed_session_leaves_baseline_witness:
  "Process char_code_model []
     \<lparr> window = 3, baseline = [10, 12] \<rparr> =
     (Inl MalformedInput, \<lparr> window = 3, baseline = [10, 12] \<rparr>) \<and>
   SaveBaselines char_code_model
     (snd (Process char_code_model [] \<lparr> window = 3, baseline = [10, 12] \<rparr>)) =
   SaveBaselines char_code_model \<lparr> window = 3, baseline = [10, 12] \<rparr>"
proof -
  have "parse_session char_code_model [] = None" by (simp add: char_code_model_def)
  from malformed_session_leaves_baseline [OF this] show ?thesis by blast
qed

end
